theory Spec2Isabelle
  imports Main "HOL-Library.AList" "HOL-Library.Multiset"
begin

section \<open>The context builder of the BBNJ question-answering bot\<close>

text \<open>
  This theory embeds the class \<open>DocumentStringBuilder\<close> of \<^verbatim>\<open>gradioserver.py\<close>
  (its constructor, \<open>addChunk\<close> and \<open>__str__\<close>), the token counter \<open>countTokens\<close> and
  the driver \<open>chunksToText\<close>.

  Python dictionaries keep the insertion order of their keys, and \<open>__str__\<close> sorts their
  items with a stable sort, so a dictionary is an association list in insertion order:
  \<open>map_of\<close> is the lookup, \<open>AList.update\<close> is \<^verbatim>\<open>d[k] = v\<close> (it replaces the value of a
  key in place and appends a new key at the end). A method that mutates \<open>self\<close> takes the
  builder and returns the builder it leaves behind, together with the exception it
  raised, if any.
\<close>

subsection \<open>Data\<close>

datatype error = OverflowError | KeyError | IndexError

text \<open>
  The tokenizer (\<^verbatim>\<open>tiktoken.get_encoding('cl100k_base').encode\<close>) belongs to a library;
  it is a parameter of the model. Token ids are integers.
\<close>

type_synonym encoding = "string \<Rightarrow> int list"

text \<open>One retrieved record, the five arguments of \<open>addChunk\<close>. The header may be \<open>None\<close>.\<close>

datatype fragment = Fragment
  (documentId_of: string)
  (documentTitle_of: string)
  (header_of: "string option")
  (content_of: string)
  (chunkNumber_of: int)

record chunk =
  content :: string
  chunkNumber :: int

record headerGroup =
  header :: string
  chunks :: "chunk list"

record document =
  documentTitle :: string
  insertOrder :: int
  headers :: "(string \<times> headerGroup) list"

record builder =
  maxTokens :: int
  tokenCount :: int
  documents :: "(string \<times> document) list"

subsection \<open>Token counting and construction\<close>

definition countTokens :: "encoding \<Rightarrow> string \<Rightarrow> int" where
  "countTokens enc s = int (length (enc s))"

text \<open>\<open>__init__\<close> stores the budget as it is given and checks nothing.\<close>

definition init :: "int \<Rightarrow> builder" where
  "init m = \<lparr>maxTokens = m, tokenCount = 0, documents = []\<rparr>"

subsection \<open>Ingestion: \<open>addChunk\<close>\<close>

text \<open>
  The body of \<open>addChunk\<close> after the budget test is three mutations in a row. Each is a
  function of its own here; a subscript of a dictionary with a missing key raises
  \<open>KeyError\<close>.
\<close>

text \<open>Lines 213-221: register the document when its id is not a key yet, and pay for its title.\<close>

definition addDocument :: "encoding \<Rightarrow> string \<Rightarrow> string \<Rightarrow> builder \<Rightarrow> builder" where
  "addDocument enc did title self =
     (if map_of (documents self) did = None then
        self\<lparr>documents :=
               AList.update did
                 \<lparr>documentTitle = title,
                  insertOrder = int (length (documents self)),
                  headers = []\<rparr>
                 (documents self),
             tokenCount := tokenCount self + countTokens enc title\<rparr>
      else self)"

text \<open>Lines 225-226: a header that is \<open>None\<close> becomes the empty string.\<close>

definition normalizeHeader :: "string option \<Rightarrow> string" where
  "normalizeHeader h = (case h of None \<Rightarrow> [] | Some s \<Rightarrow> s)"

text \<open>Lines 230-240: register the header in its document when it is new there, and pay for it.\<close>

definition addHeader :: "encoding \<Rightarrow> string \<Rightarrow> string \<Rightarrow> builder \<Rightarrow> error + builder" where
  "addHeader enc did h self =
     (case map_of (documents self) did of
        None \<Rightarrow> Inl KeyError
      | Some doc \<Rightarrow>
          if map_of (headers doc) h = None then
            Inr (self\<lparr>documents :=
                        AList.update did
                          (doc\<lparr>headers := AList.update h \<lparr>header = h, chunks = []\<rparr> (headers doc)\<rparr>)
                          (documents self),
                      tokenCount := tokenCount self + countTokens enc h\<rparr>)
          else Inr self)"

text \<open>Lines 244-248: append the chunk to its header group and pay for its content.\<close>

definition appendChunk ::
  "encoding \<Rightarrow> string \<Rightarrow> string \<Rightarrow> string \<Rightarrow> int \<Rightarrow> builder \<Rightarrow> error + builder" where
  "appendChunk enc did h c n self =
     (case map_of (documents self) did of
        None \<Rightarrow> Inl KeyError
      | Some doc \<Rightarrow>
          (case map_of (headers doc) h of
             None \<Rightarrow> Inl KeyError
           | Some g \<Rightarrow>
               Inr (self\<lparr>documents :=
                           AList.update did
                             (doc\<lparr>headers :=
                                    AList.update h
                                      (g\<lparr>chunks := chunks g @ [\<lparr>content = c, chunkNumber = n\<rparr>]\<rparr>)
                                      (headers doc)\<rparr>)
                             (documents self),
                         tokenCount := tokenCount self + countTokens enc c\<rparr>)))"

text \<open>
  \<open>addChunk\<close>: the exception raised (\<open>None\<close> when the call returns) and the builder after
  the call. The budget test of lines 206-210 looks at the content alone and comes before
  every mutation.
\<close>

definition addChunk :: "encoding \<Rightarrow> fragment \<Rightarrow> builder \<Rightarrow> error option \<times> builder" where
  "addChunk enc f self =
     (let chunkSize = countTokens enc (content_of f) in
      if chunkSize + tokenCount self > maxTokens self then (Some OverflowError, self)
      else
        let self1 = addDocument enc (documentId_of f) (documentTitle_of f) self;
            h = normalizeHeader (header_of f)
        in case addHeader enc (documentId_of f) h self1 of
             Inl e \<Rightarrow> (Some e, self1)
           | Inr self2 \<Rightarrow>
               (case appendChunk enc (documentId_of f) h (content_of f) (chunkNumber_of f) self2 of
                  Inl e \<Rightarrow> (Some e, self2)
                | Inr self3 \<Rightarrow> (None, self3)))"

subsection \<open>Rendering: \<open>__str__\<close>\<close>

text \<open>\<open>str.upper\<close>, on the ASCII letters.\<close>

definition upper_char :: "char \<Rightarrow> char" where
  "upper_char c =
     (let n = (of_char c :: nat) in if 97 \<le> n \<and> n \<le> 122 then char_of (n - 32) else c)"

definition upper :: "string \<Rightarrow> string" where
  "upper s = map upper_char s"

text \<open>
  Line 270 tests \<^verbatim>\<open>header != ''\<close>, where \<open>header\<close> is the loop variable of line 269: the
  value of the item, a dictionary with the keys \<open>header\<close> and \<open>chunks\<close>. In Python a
  dictionary and a string are never equal, so \<open>!=\<close> between them is \<open>True\<close>.
\<close>

definition dict_ne_str :: "headerGroup \<Rightarrow> string \<Rightarrow> bool" where
  "dict_ne_str g s = True"

text \<open>
  Lines 273-278, the loop over the sorted chunks of a group; the first argument is
  \<open>previousChunkNumber\<close>.
\<close>

fun chunkLines :: "int \<Rightarrow> chunk list \<Rightarrow> string list" where
  "chunkLines previousChunkNumber [] = []"
| "chunkLines previousChunkNumber (c # cs) =
     (if previousChunkNumber \<noteq> 0 \<and> chunkNumber c \<noteq> previousChunkNumber + 1
      then [''...''] else [])
     @ [content c]
     @ chunkLines (chunkNumber c) cs"

text \<open>Lines 270-278, the body of the loop over the header groups.\<close>

definition headerLines :: "headerGroup \<Rightarrow> string list" where
  "headerLines g =
     (if dict_ne_str g [] then [header g @ '':''] else [])
     @ chunkLines 0 (sort_key chunkNumber (chunks g))"

text \<open>
  Line 269: the items of \<open>headers\<close>, sorted by \<^verbatim>\<open>h[1]['chunks'][0]['chunkNumber']\<close>. The
  subscript \<open>[0]\<close> of an empty list raises \<open>IndexError\<close>; \<open>firstChunkNumber\<close> is applied
  to a group only when no group is empty.
\<close>

definition firstChunkNumber :: "headerGroup \<Rightarrow> int" where
  "firstChunkNumber g = (case chunks g of [] \<Rightarrow> 0 | c # _ \<Rightarrow> chunkNumber c)"

definition sortedHeaders ::
  "(string \<times> headerGroup) list \<Rightarrow> error + (string \<times> headerGroup) list" where
  "sortedHeaders hs =
     (if list_ex (\<lambda>h. chunks (snd h) = []) hs then Inl IndexError
      else Inr (sort_key (\<lambda>h. firstChunkNumber (snd h)) hs))"

text \<open>Lines 262-281, the body of the loop over the documents.\<close>

definition titleLine :: "string \<Rightarrow> document \<Rightarrow> string" where
  \<open>titleLine documentId doc =
     ''From document "'' @ (if documentId = ''0'' then ''FINAL '' else []) @
     upper (documentTitle doc) @ ''":''\<close>

definition documentLines :: "string \<Rightarrow> document \<Rightarrow> error + string list" where
  "documentLines documentId doc =
     (case sortedHeaders (headers doc) of
        Inl e \<Rightarrow> Inl e
      | Inr hs \<Rightarrow>
          Inr ([titleLine documentId doc] @ concat (map (\<lambda>h. headerLines (snd h)) hs) @ [[]]))"

fun renderDocuments :: "(string \<times> document) list \<Rightarrow> error + string list" where
  "renderDocuments [] = Inr []"
| "renderDocuments (d # ds) =
     (case documentLines (fst d) (snd d) of
        Inl e \<Rightarrow> Inl e
      | Inr ls \<Rightarrow>
          (case renderDocuments ds of
             Inl e \<Rightarrow> Inl e
           | Inr rest \<Rightarrow> Inr (ls @ rest)))"

text \<open>Line 260: the documents sorted by \<open>insertOrder\<close>; \<open>lines\<close> is the list built by the loops.\<close>

definition sortedDocuments :: "builder \<Rightarrow> (string \<times> document) list" where
  "sortedDocuments self = sort_key (\<lambda>d. insertOrder (snd d)) (documents self)"

definition lines :: "builder \<Rightarrow> error + string list" where
  "lines self = renderDocuments (sortedDocuments self)"

text \<open>\<^verbatim>\<open>sep.join(xs)\<close>.\<close>

fun join :: "string \<Rightarrow> string list \<Rightarrow> string" where
  "join sep [] = []"
| "join sep [x] = x"
| "join sep (x # y # ys) = x @ sep @ join sep (y # ys)"

definition str :: "builder \<Rightarrow> error + string" where
  "str self = (case lines self of Inl e \<Rightarrow> Inl e | Inr ls \<Rightarrow> Inr (join [CHR 0x0A] ls))"

subsection \<open>The driver: \<open>chunksToText\<close>\<close>

text \<open>
  The loop of lines 306-316: it stops at the first \<open>OverflowError\<close> and lets any other
  exception through.
\<close>

fun addChunksUntilOverflow ::
  "encoding \<Rightarrow> fragment list \<Rightarrow> builder \<Rightarrow> error option \<times> builder" where
  "addChunksUntilOverflow enc [] self = (None, self)"
| "addChunksUntilOverflow enc (f # fs) self =
     (case addChunk enc f self of
        (None, self') \<Rightarrow> addChunksUntilOverflow enc fs self'
      | (Some OverflowError, self') \<Rightarrow> (None, self')
      | (Some e, self') \<Rightarrow> (Some e, self'))"

definition chunksToText :: "encoding \<Rightarrow> fragment list \<Rightarrow> int \<Rightarrow> error + string" where
  "chunksToText enc cs m =
     (case addChunksUntilOverflow enc cs (init m) of
        (Some e, self) \<Rightarrow> Inl e
      | (None, self) \<Rightarrow> str self)"


section \<open>Notions used to state the properties\<close>

subsection \<open>One call\<close>

text \<open>
  The incremental cost of a fragment as the specification words it: the content, the title
  when the \<open>documentId\<close> is new to the builder, the normalized header when it is new for
  that document.
\<close>

definition isNewDocument :: "builder \<Rightarrow> string \<Rightarrow> bool" where
  "isNewDocument self did = (map_of (documents self) did = None)"

definition isNewHeader :: "builder \<Rightarrow> string \<Rightarrow> string \<Rightarrow> bool" where
  "isNewHeader self did h =
     (case map_of (documents self) did of
        None \<Rightarrow> True
      | Some doc \<Rightarrow> map_of (headers doc) h = None)"

definition incrementalCost :: "encoding \<Rightarrow> builder \<Rightarrow> fragment \<Rightarrow> int" where
  "incrementalCost enc self f =
     countTokens enc (content_of f)
     + (if isNewDocument self (documentId_of f) then countTokens enc (documentTitle_of f) else 0)
     + (if isNewHeader self (documentId_of f) (normalizeHeader (header_of f))
        then countTokens enc (normalizeHeader (header_of f)) else 0)"

text \<open>The dictionary that \<open>addChunk\<close> appends to the chunk list of a group.\<close>

definition chunk_of :: "fragment \<Rightarrow> chunk" where
  "chunk_of f = \<lparr>content = content_of f, chunkNumber = chunkNumber_of f\<rparr>"

text \<open>
  The test of the budget, and the builder that an accepted call leaves, in one step;
  \<open>addChunk_eq\<close> below proves that \<open>addChunk\<close> is these two.
\<close>

definition overflows :: "encoding \<Rightarrow> fragment \<Rightarrow> builder \<Rightarrow> bool" where
  "overflows enc f self = (countTokens enc (content_of f) + tokenCount self > maxTokens self)"

definition commit :: "encoding \<Rightarrow> fragment \<Rightarrow> builder \<Rightarrow> builder" where
  "commit enc f self =
     (let did = documentId_of f;
          h = normalizeHeader (header_of f);
          doc = (case map_of (documents self) did of
                   None \<Rightarrow> \<lparr>documentTitle = documentTitle_of f,
                             insertOrder = int (length (documents self)),
                             headers = []\<rparr>
                 | Some d \<Rightarrow> d);
          g = (case map_of (headers doc) h of
                 None \<Rightarrow> \<lparr>header = h, chunks = []\<rparr>
               | Some g' \<Rightarrow> g')
      in self\<lparr>documents :=
                 AList.update did
                   (doc\<lparr>headers := AList.update h (g\<lparr>chunks := chunks g @ [chunk_of f]\<rparr>) (headers doc)\<rparr>)
                   (documents self),
               tokenCount := tokenCount self + incrementalCost enc self f\<rparr>)"

text \<open>The chunk list of the group of a document and a header; empty when there is no such group.\<close>

definition groupChunks :: "builder \<Rightarrow> string \<Rightarrow> string \<Rightarrow> chunk list" where
  "groupChunks self did h =
     (case map_of (documents self) did of
        None \<Rightarrow> []
      | Some doc \<Rightarrow> (case map_of (headers doc) h of None \<Rightarrow> [] | Some g \<Rightarrow> chunks g))"

subsection \<open>Invariants of a builder\<close>

text \<open>
  Every header group has a chunk; the insert orders are 0, 1, 2, ... along the
  dictionary; the keys of each dictionary are distinct.
\<close>

definition noEmptyGroup :: "builder \<Rightarrow> bool" where
  "noEmptyGroup self =
     (\<forall>d \<in> set (documents self). \<forall>h \<in> set (headers (snd d)). chunks (snd h) \<noteq> [])"

definition insertOrdered :: "builder \<Rightarrow> bool" where
  "insertOrdered self =
     (map (\<lambda>d. insertOrder (snd d)) (documents self) = map int [0..<length (documents self)])"

definition distinctKeys :: "builder \<Rightarrow> bool" where
  "distinctKeys self =
     (distinct (map fst (documents self)) \<and>
      (\<forall>d \<in> set (documents self). distinct (map fst (headers (snd d)))))"

subsection \<open>Sequences of calls\<close>

text \<open>
  The builder after \<open>addChunk\<close> was called on each fragment of a list in turn, whatever
  each call did, and the fragments of the list whose call returned normally.
\<close>

fun addChunks :: "encoding \<Rightarrow> fragment list \<Rightarrow> builder \<Rightarrow> builder" where
  "addChunks enc [] self = self"
| "addChunks enc (f # fs) self = addChunks enc fs (snd (addChunk enc f self))"

fun accepted :: "encoding \<Rightarrow> fragment list \<Rightarrow> builder \<Rightarrow> fragment list" where
  "accepted enc [] self = []"
| "accepted enc (f # fs) self =
     (case addChunk enc f self of
        (None, self') \<Rightarrow> f # accepted enc fs self'
      | (Some e, self') \<Rightarrow> accepted enc fs self')"

text \<open>The elements of a list in the order of their first occurrence, after those seen before.\<close>

fun firstSeen :: "'a list \<Rightarrow> 'a list \<Rightarrow> 'a list" where
  "firstSeen seen [] = seen"
| "firstSeen seen (x # xs) = firstSeen (if x \<in> set seen then seen else seen @ [x]) xs"

text \<open>The elements of a list that are the first with their key, the keys seen before apart.\<close>

fun firstsBy :: "('a \<Rightarrow> 'k) \<Rightarrow> ('k \<Rightarrow> bool) \<Rightarrow> 'a list \<Rightarrow> 'a list" where
  "firstsBy key seen [] = []"
| "firstsBy key seen (x # xs) =
     (if seen (key x) then firstsBy key seen xs
      else x # firstsBy key (seen(key x := True)) xs)"

definition headerKey :: "fragment \<Rightarrow> string \<times> string" where
  "headerKey f = (documentId_of f, normalizeHeader (header_of f))"

text \<open>
  The total cost of a list of fragments as the specification words it: every content, the
  title once for each distinct \<open>documentId\<close>, the normalized header once for each distinct
  pair of \<open>documentId\<close> and normalized header.
\<close>

definition ingestCost ::
  "encoding \<Rightarrow> (string \<Rightarrow> bool) \<Rightarrow> (string \<times> string \<Rightarrow> bool) \<Rightarrow> fragment list \<Rightarrow> int" where
  "ingestCost enc seenDocument seenHeader fs =
     (\<Sum>f\<leftarrow>fs. countTokens enc (content_of f))
     + (\<Sum>f\<leftarrow>firstsBy documentId_of seenDocument fs. countTokens enc (documentTitle_of f))
     + (\<Sum>f\<leftarrow>firstsBy headerKey seenHeader fs. countTokens enc (normalizeHeader (header_of f)))"

definition totalCost :: "encoding \<Rightarrow> fragment list \<Rightarrow> int" where
  "totalCost enc fs = ingestCost enc (\<lambda>d. False) (\<lambda>k. False) fs"

text \<open>
  The sequence number of the fragment that arrived first in the group of a document and
  a normalized header, among the fragments of a list.
\<close>

definition firstArrival :: "fragment list \<Rightarrow> string \<Rightarrow> string \<Rightarrow> int option" where
  "firstArrival fs d h =
     (case filter (\<lambda>f. documentId_of f = d \<and> normalizeHeader (header_of f) = h) fs of
        [] \<Rightarrow> None
      | f # _ \<Rightarrow> Some (chunkNumber_of f))"

subsection \<open>Rendering without failure\<close>

text \<open>The lines of a document when none of its groups is empty.\<close>

definition docBlock :: "string \<Rightarrow> document \<Rightarrow> string list" where
  "docBlock documentId doc =
     [titleLine documentId doc]
     @ concat (map (\<lambda>h. headerLines (snd h))
         (sort_key (\<lambda>h. firstChunkNumber (snd h)) (headers doc)))
     @ [[]]"

subsection \<open>Concrete inputs\<close>

text \<open>
  A tokenizer for the examples: one token for each character. On the one-character
  strings and the empty string it agrees with \<open>cl100k_base\<close>.
\<close>

definition charTokens :: encoding where
  "charTokens s = map of_char s"

text \<open>
  Six fragments of two documents. Document \<open>2\<close> comes first and has the groups \<open>Z\<close>
  (chunks 5, then 1), \<open>A\<close> (chunk 7) and \<open>M\<close> (chunk 3), in this order of arrival.
\<close>

definition example_fragments :: "fragment list" where
  "example_fragments =
     [Fragment ''2'' ''Zb'' (Some ''Z'') ''z5'' 5,
      Fragment ''1'' ''C'' None ''p'' 0,
      Fragment ''2'' ''Zb'' (Some ''A'') ''a7'' 7,
      Fragment ''2'' ''Zb'' (Some ''M'') ''m3'' 3,
      Fragment ''1'' ''C'' None ''q'' 2,
      Fragment ''2'' ''Zb'' (Some ''Z'') ''z1'' 1]"

text \<open>A builder of budget 9 after one fragment, and after the same fragment again.\<close>

definition twice_once :: builder where
  "twice_once =
     \<lparr>maxTokens = 9, tokenCount = 4,
      documents = [(''4'', \<lparr>documentTitle = ''t'', insertOrder = 0,
        headers = [(''Z'', \<lparr>header = ''Z'',
          chunks = [\<lparr>content = ''zz'', chunkNumber = 5\<rparr>]\<rparr>)]\<rparr>)]\<rparr>"

definition twice_twice :: builder where
  "twice_twice =
     \<lparr>maxTokens = 9, tokenCount = 6,
      documents = [(''4'', \<lparr>documentTitle = ''t'', insertOrder = 0,
        headers = [(''Z'', \<lparr>header = ''Z'',
          chunks = [\<lparr>content = ''zz'', chunkNumber = 5\<rparr>,
                    \<lparr>content = ''zz'', chunkNumber = 5\<rparr>]\<rparr>)]\<rparr>)]\<rparr>"

section \<open>Properties\<close>

subsection \<open>\<open>addChunk\<close> in one step\<close>

lemma addChunk_eq:
  "addChunk enc f self =
     (if overflows enc f self then (Some OverflowError, self) else (None, commit enc f self))"
  by (auto simp: addChunk_def overflows_def commit_def addDocument_def addHeader_def
      appendChunk_def incrementalCost_def isNewDocument_def isNewHeader_def chunk_of_def
      Let_def update_conv' split: option.splits)

subsection \<open>Association lists\<close>

lemma update_new_key: "map_of al k = None \<Longrightarrow> AList.update k v al = al @ [(k, v)]"
  by (induction al) (auto split: if_splits)

lemma update_member: "p \<in> set (AList.update k v al) \<Longrightarrow> p = (k, v) \<or> p \<in> set al"
  by (induction al) (auto split: if_splits)

lemma update_old_key:
  "map_of al k = Some v \<Longrightarrow>
   \<exists>xs ys. al = xs @ (k, v) # ys \<and> AList.update k v' al = xs @ (k, v') # ys"
proof (induction al)
  case Nil
  then show ?case by simp
next
  case (Cons p al)
  show ?case
  proof (cases "fst p = k")
    case True
    with Cons.prems have "p = (k, v)" by (cases p) auto
    then have "p # al = [] @ (k, v) # al \<and> AList.update k v' (p # al) = [] @ (k, v') # al"
      by simp
    then show ?thesis by blast
  next
    case False
    with Cons.prems have "map_of al k = Some v" by (cases p) auto
    from Cons.IH [OF this] obtain xs ys
      where "al = xs @ (k, v) # ys" "AList.update k v' al = xs @ (k, v') # ys" by blast
    with False have "p # al = (p # xs) @ (k, v) # ys \<and>
      AList.update k v' (p # al) = (p # xs) @ (k, v') # ys"
      by (cases p) auto
    then show ?thesis by blast
  qed
qed

subsection \<open>What a committed ingestion changes\<close>

lemma maxTokens_commit: "maxTokens (commit enc f self) = maxTokens self"
  by (simp add: commit_def Let_def)

lemma tokenCount_commit:
  "tokenCount (commit enc f self) = tokenCount self + incrementalCost enc self f"
  by (simp add: commit_def Let_def)

lemma keys_commit:
  "map fst (documents (commit enc f self)) =
     (if isNewDocument self (documentId_of f)
      then map fst (documents self) @ [documentId_of f]
      else map fst (documents self))"
  by (auto simp: commit_def Let_def update_keys isNewDocument_def map_of_eq_None_iff
      simp flip: set_map)

lemma isNewDocument_commit:
  "isNewDocument (commit enc f self) d \<longleftrightarrow> isNewDocument self d \<and> d \<noteq> documentId_of f"
  by (auto simp: commit_def Let_def isNewDocument_def update_conv')

lemma isNewHeader_commit:
  "isNewHeader (commit enc f self) d h \<longleftrightarrow>
     isNewHeader self d h \<and> \<not> (d = documentId_of f \<and> h = normalizeHeader (header_of f))"
  by (auto simp: commit_def Let_def isNewHeader_def update_conv' split: option.splits)

lemma groupChunks_commit:
  "groupChunks (commit enc f self) d h =
     groupChunks self d h @
     (if d = documentId_of f \<and> h = normalizeHeader (header_of f) then [chunk_of f] else [])"
  by (auto simp: commit_def Let_def groupChunks_def update_conv' split: option.splits)

lemma noEmptyGroup_commit:
  assumes "noEmptyGroup self"
  shows "noEmptyGroup (commit enc f self)"
  unfolding noEmptyGroup_def
proof (intro ballI)
  fix d h
  assume d: "d \<in> set (documents (commit enc f self))"
    and h: "h \<in> set (headers (snd d))"
  let ?did = "documentId_of f" and ?h = "normalizeHeader (header_of f)"
  obtain doc g where
    doc: "doc = (case map_of (documents self) ?did of
                   None \<Rightarrow> \<lparr>documentTitle = documentTitle_of f,
                             insertOrder = int (length (documents self)),
                             headers = []\<rparr>
                 | Some d \<Rightarrow> d)"
    and g: "g = (case map_of (headers doc) ?h of
                 None \<Rightarrow> \<lparr>header = ?h, chunks = []\<rparr>
               | Some g' \<Rightarrow> g')"
    by blast
  let ?doc' = "doc\<lparr>headers := AList.update ?h (g\<lparr>chunks := chunks g @ [chunk_of f]\<rparr>) (headers doc)\<rparr>"
  have docs: "documents (commit enc f self) = AList.update ?did ?doc' (documents self)"
    by (simp add: commit_def Let_def doc g)
  have old: "h' \<in> set (headers doc) \<Longrightarrow> chunks (snd h') \<noteq> []" for h'
    using assms by (auto simp: doc noEmptyGroup_def split: option.splits dest!: map_of_SomeD)
  from d docs have "d = (?did, ?doc') \<or> d \<in> set (documents self)"
    by (auto dest: update_member)
  then show "chunks (snd h) \<noteq> []"
  proof
    assume "d = (?did, ?doc')"
    with h have "h \<in> set (AList.update ?h (g\<lparr>chunks := chunks g @ [chunk_of f]\<rparr>) (headers doc))"
      by simp
    then have "h = (?h, g\<lparr>chunks := chunks g @ [chunk_of f]\<rparr>) \<or> h \<in> set (headers doc)"
      by (rule update_member)
    then show ?thesis using old [of h] by auto
  next
    assume "d \<in> set (documents self)"
    with h assms show ?thesis by (auto simp: noEmptyGroup_def)
  qed
qed

lemma distinctKeys_commit:
  assumes "distinctKeys self"
  shows "distinctKeys (commit enc f self)"
proof -
  let ?did = "documentId_of f" and ?h = "normalizeHeader (header_of f)"
  obtain doc g where
    doc: "doc = (case map_of (documents self) ?did of
                   None \<Rightarrow> \<lparr>documentTitle = documentTitle_of f,
                             insertOrder = int (length (documents self)),
                             headers = []\<rparr>
                 | Some d \<Rightarrow> d)"
    and g: "g = (case map_of (headers doc) ?h of
                 None \<Rightarrow> \<lparr>header = ?h, chunks = []\<rparr>
               | Some g' \<Rightarrow> g')"
    by blast
  let ?doc' = "doc\<lparr>headers := AList.update ?h (g\<lparr>chunks := chunks g @ [chunk_of f]\<rparr>) (headers doc)\<rparr>"
  have docs: "documents (commit enc f self) = AList.update ?did ?doc' (documents self)"
    by (simp add: commit_def Let_def doc g)
  have "distinct (map fst (headers doc))"
    using assms by (auto simp: doc distinctKeys_def split: option.splits dest!: map_of_SomeD)
  then have new: "distinct (map fst (headers ?doc'))"
    by (simp add: distinct_update)
  have "distinct (map fst (documents (commit enc f self)))"
    using assms by (simp add: docs distinct_update distinctKeys_def)
  moreover have "distinct (map fst (headers (snd d)))"
    if "d \<in> set (documents (commit enc f self))" for d
  proof -
    from that docs have "d = (?did, ?doc') \<or> d \<in> set (documents self)"
      by (auto dest: update_member)
    then show ?thesis using new assms by (auto simp: distinctKeys_def)
  qed
  ultimately show ?thesis by (simp add: distinctKeys_def)
qed

lemma insertOrdered_commit:
  assumes "insertOrdered self"
  shows "insertOrdered (commit enc f self)"
proof (cases "map_of (documents self) (documentId_of f)")
  case None
  then have "documents (commit enc f self) = documents self @
      [(documentId_of f, 
        \<lparr>documentTitle = documentTitle_of f, insertOrder = int (length (documents self)),
         headers = AList.update (normalizeHeader (header_of f))
            \<lparr>header = normalizeHeader (header_of f), chunks = [chunk_of f]\<rparr> []\<rparr>)]"
    by (simp add: commit_def Let_def update_new_key)
  with assms show ?thesis by (simp add: insertOrdered_def)
next
  case (Some doc)
  let ?h = "normalizeHeader (header_of f)"
  obtain g where g: "g = (case map_of (headers doc) ?h of
                 None \<Rightarrow> \<lparr>header = ?h, chunks = []\<rparr>
               | Some g' \<Rightarrow> g')"
    by blast
  let ?doc' = "doc\<lparr>headers := AList.update ?h (g\<lparr>chunks := chunks g @ [chunk_of f]\<rparr>) (headers doc)\<rparr>"
  have docs: "documents (commit enc f self) = AList.update (documentId_of f) ?doc' (documents self)"
    by (simp add: commit_def Let_def Some g)
  from update_old_key [OF Some, of ?doc'] obtain xs ys where
    "documents self = xs @ (documentId_of f, doc) # ys"
    "AList.update (documentId_of f) ?doc' (documents self) = xs @ (documentId_of f, ?doc') # ys"
    by blast
  with assms docs show ?thesis by (simp add: insertOrdered_def)
qed

subsection \<open>Sequences of calls\<close>

lemma addChunks_Cons:
  "addChunks enc (f # fs) self =
     (if overflows enc f self then addChunks enc fs self
      else addChunks enc fs (commit enc f self))"
  by (simp add: addChunk_eq)

lemma accepted_Cons:
  "accepted enc (f # fs) self =
     (if overflows enc f self then accepted enc fs self
      else f # accepted enc fs (commit enc f self))"
  by (simp add: addChunk_eq)

lemma noEmptyGroup_addChunks: "noEmptyGroup self \<Longrightarrow> noEmptyGroup (addChunks enc fs self)"
  by (induction fs arbitrary: self) (simp_all add: addChunks_Cons noEmptyGroup_commit del: addChunks.simps(2))

lemma distinctKeys_addChunks: "distinctKeys self \<Longrightarrow> distinctKeys (addChunks enc fs self)"
  by (induction fs arbitrary: self) (simp_all add: addChunks_Cons distinctKeys_commit del: addChunks.simps(2))

lemma insertOrdered_addChunks: "insertOrdered self \<Longrightarrow> insertOrdered (addChunks enc fs self)"
  by (induction fs arbitrary: self) (simp_all add: addChunks_Cons insertOrdered_commit del: addChunks.simps(2))

lemma init_invariants: "noEmptyGroup (init m)" "distinctKeys (init m)" "insertOrdered (init m)"
  by (simp_all add: init_def noEmptyGroup_def distinctKeys_def insertOrdered_def)

lemma groupChunks_addChunks:
  "groupChunks (addChunks enc fs self) d h =
     groupChunks self d h @
     map chunk_of (filter (\<lambda>f. documentId_of f = d \<and> normalizeHeader (header_of f) = h)
       (accepted enc fs self))"
  by (induction fs arbitrary: self)
    (simp_all add: addChunks_Cons accepted_Cons groupChunks_commit
      del: addChunks.simps(2) accepted.simps(2))

lemma keys_addChunks:
  "map fst (documents (addChunks enc fs self)) =
     firstSeen (map fst (documents self)) (map documentId_of (accepted enc fs self))"
proof (induction fs arbitrary: self)
  case Nil
  show ?case by simp
next
  case (Cons f fs)
  have "isNewDocument self (documentId_of f) \<longleftrightarrow> documentId_of f \<notin> set (map fst (documents self))"
    by (simp add: isNewDocument_def map_of_eq_None_iff)
  then show ?case
    by (simp add: addChunks_Cons accepted_Cons Cons.IH keys_commit 
        del: addChunks.simps(2) accepted.simps(2) set_map)
qed

lemmas addChunk_defs = addChunk_def addDocument_def addHeader_def appendChunk_def
  normalizeHeader_def countTokens_def charTokens_def init_def Let_def

subsection \<open>The budget test\<close>

text \<open>
  C1, as the code has it: \<open>addChunk\<close> raises \<open>OverflowError\<close> exactly when \<open>tokenCount\<close>
  plus the token count of the content exceeds \<open>maxTokens\<close>, and returns normally
  otherwise. The costs of a new document title and of a new header are not part of the
  test.
\<close>

theorem addChunk_overflow_iff_content:
  "fst (addChunk enc f self) =
     (if tokenCount self + countTokens enc (content_of f) > maxTokens self
      then Some OverflowError else None)"
  by (simp add: addChunk_eq overflows_def add.commute)

text \<open>
  C1 as stated fails: with a budget of 1, a fragment whose content costs one token and
  whose new title costs another is accepted, although the full incremental cost (2)
  exceeds the budget.
\<close>

theorem addChunk_full_cost_counterexample:
  "fst (addChunk charTokens (Fragment ''7'' ''b'' None ''a'' 0) (init 1)) = None \<and>
   tokenCount (init 1) + incrementalCost charTokens (init 1) (Fragment ''7'' ''b'' None ''a'' 0)
     > maxTokens (init 1)"
  by (simp add: addChunk_defs incrementalCost_def isNewDocument_def isNewHeader_def)

text \<open>
  C2 as stated fails: with the positive budget 1, the first call is accepted (its content
  costs 1) and leaves \<open>tokenCount = 3\<close>, above \<open>maxTokens = 1\<close>.
\<close>

theorem tokenCount_ceiling_counterexample:
  "0 < maxTokens (init 1) \<and>
   fst (addChunk charTokens (Fragment ''7'' ''T'' (Some ''H'') ''a'' 4) (init 1)) = None \<and>
   tokenCount (snd (addChunk charTokens (Fragment ''7'' ''T'' (Some ''H'') ''a'' 4) (init 1))) = 3 \<and>
   maxTokens (snd (addChunk charTokens (Fragment ''7'' ''T'' (Some ''H'') ''a'' 4) (init 1))) = 1"
  by (simp add: addChunk_defs)

text \<open>
  C2, as the code has it: a call that returns normally leaves \<open>maxTokens\<close> as it was and
  \<open>tokenCount\<close> at most \<open>maxTokens\<close> plus the token counts of the title and of the header
  that this call registered (each counted only when it was new).
\<close>

theorem tokenCount_after_addChunk:
  assumes "addChunk enc f self = (None, self')"
  shows "maxTokens self' = maxTokens self \<and>
         tokenCount self' \<le> maxTokens self
           + (if isNewDocument self (documentId_of f)
              then countTokens enc (documentTitle_of f) else 0)
           + (if isNewHeader self (documentId_of f) (normalizeHeader (header_of f))
              then countTokens enc (normalizeHeader (header_of f)) else 0)"
proof -
  from assms have ok: "\<not> overflows enc f self" and self': "self' = commit enc f self"
    by (auto simp: addChunk_eq split: if_splits)
  from ok have "tokenCount self + countTokens enc (content_of f) \<le> maxTokens self"
    by (simp add: overflows_def)
  then show ?thesis
    by (simp add: self' maxTokens_commit tokenCount_commit incrementalCost_def)
qed

theorem tokenCount_after_addChunk_witness:
  "addChunk charTokens (Fragment ''7'' ''T'' (Some ''H'') ''a'' 4) (init 2) =
     (None, \<lparr>maxTokens = 2, tokenCount = 3,
             documents = [(''7'', \<lparr>documentTitle = ''T'', insertOrder = 0,
               headers = [(''H'', \<lparr>header = ''H'',
                 chunks = [\<lparr>content = ''a'', chunkNumber = 4\<rparr>]\<rparr>)]\<rparr>)]\<rparr>) \<and>
   (3::int) \<le> 2 + 1 + 1"
proof -
  have h: "addChunk charTokens (Fragment ''7'' ''T'' (Some ''H'') ''a'' 4) (init 2) =
     (None, \<lparr>maxTokens = 2, tokenCount = 3,
             documents = [(''7'', \<lparr>documentTitle = ''T'', insertOrder = 0,
               headers = [(''H'', \<lparr>header = ''H'',
                 chunks = [\<lparr>content = ''a'', chunkNumber = 4\<rparr>]\<rparr>)]\<rparr>)]\<rparr>)"
    by (simp add: addChunk_defs)
  from tokenCount_after_addChunk [OF h] show ?thesis
    using h by (simp add: isNewDocument_def isNewHeader_def countTokens_def charTokens_def init_def)
qed

text \<open>
  C3: a call that raises \<open>OverflowError\<close> leaves the whole builder (\<open>maxTokens\<close>,
  \<open>tokenCount\<close> and \<open>documents\<close> with every title, insert order, header group and chunk
  list) as it was before the call.
\<close>

theorem addChunk_overflow_atomic:
  "fst (addChunk enc f self) = Some OverflowError \<Longrightarrow> snd (addChunk enc f self) = self"
  by (simp add: addChunk_eq split: if_splits)

theorem addChunk_overflow_atomic_witness:
  "fst (addChunk charTokens (Fragment ''8'' ''U'' None ''c'' 1)
      (snd (addChunk charTokens (Fragment ''7'' ''T'' (Some ''H'') ''a'' 4) (init 3))))
     = Some OverflowError \<and>
   snd (addChunk charTokens (Fragment ''8'' ''U'' None ''c'' 1)
      (snd (addChunk charTokens (Fragment ''7'' ''T'' (Some ''H'') ''a'' 4) (init 3))))
     = \<lparr>maxTokens = 3, tokenCount = 3,
             documents = [(''7'', \<lparr>documentTitle = ''T'', insertOrder = 0,
               headers = [(''H'', \<lparr>header = ''H'',
                 chunks = [\<lparr>content = ''a'', chunkNumber = 4\<rparr>]\<rparr>)]\<rparr>)]\<rparr>"
proof -
  have s: "snd (addChunk charTokens (Fragment ''7'' ''T'' (Some ''H'') ''a'' 4) (init 3)) =
      \<lparr>maxTokens = 3, tokenCount = 3,
             documents = [(''7'', \<lparr>documentTitle = ''T'', insertOrder = 0,
               headers = [(''H'', \<lparr>header = ''H'',
                 chunks = [\<lparr>content = ''a'', chunkNumber = 4\<rparr>]\<rparr>)]\<rparr>)]\<rparr>"
    by (simp add: addChunk_defs)
  have h: "fst (addChunk charTokens (Fragment ''8'' ''U'' None ''c'' 1)
      (snd (addChunk charTokens (Fragment ''7'' ''T'' (Some ''H'') ''a'' 4) (init 3))))
     = Some OverflowError"
    unfolding s by (simp add: addChunk_defs)
  from addChunk_overflow_atomic [OF h] h s show ?thesis by simp
qed

subsection \<open>Construction\<close>

text \<open>
  C9, as the code has it: for every integer budget, positive or not, the constructor
  returns a builder whose \<open>maxTokens\<close> is the budget as given, with \<open>tokenCount = 0\<close> and
  no documents.
\<close>

theorem init_accepts_any_budget:
  "maxTokens (init m) = m \<and> tokenCount (init m) = 0 \<and> documents (init m) = []"
  by (simp add: init_def)

text \<open>
  C9 as stated fails: the budgets \<open>-5\<close> and \<open>0\<close> are accepted, and stored unchanged.
\<close>

theorem init_nonpositive_counterexample:
  "init (- 5) = \<lparr>maxTokens = - 5, tokenCount = 0, documents = []\<rparr> \<and>
   init 0 = \<lparr>maxTokens = 0, tokenCount = 0, documents = []\<rparr>"
  by (simp add: init_def)

subsection \<open>The running total\<close>

lemma fun_upd_seen: "seen k \<Longrightarrow> seen(k := True) = seen"
  by (auto simp: fun_eq_iff)

lemma seenDocument_commit:
  "(\<lambda>d. \<not> isNewDocument (commit enc f self) d) =
     (\<lambda>d. \<not> isNewDocument self d)(documentId_of f := True)"
  by (auto simp: isNewDocument_commit fun_eq_iff)

lemma seenHeader_commit:
  "(\<lambda>k. \<not> isNewHeader (commit enc f self) (fst k) (snd k)) =
     (\<lambda>k. \<not> isNewHeader self (fst k) (snd k))(headerKey f := True)"
  by (auto simp: isNewHeader_commit fun_eq_iff headerKey_def)

lemma tokenCount_addChunks:
  "tokenCount (addChunks enc fs self) =
     tokenCount self +
     ingestCost enc (\<lambda>d. \<not> isNewDocument self d) (\<lambda>k. \<not> isNewHeader self (fst k) (snd k))
       (accepted enc fs self)"
proof (induction fs arbitrary: self)
  case Nil
  show ?case by (simp add: ingestCost_def)
next
  case (Cons f fs)
  show ?case
  proof (cases "overflows enc f self")
    case True
    then show ?thesis
      by (simp add: addChunks_Cons accepted_Cons Cons.IH del: addChunks.simps(2) accepted.simps(2))
  next
    case False
    have "tokenCount (addChunks enc (f # fs) self) =
        tokenCount (commit enc f self) +
        ingestCost enc ((\<lambda>d. \<not> isNewDocument self d)(documentId_of f := True))
          ((\<lambda>k. \<not> isNewHeader self (fst k) (snd k))(headerKey f := True))
          (accepted enc fs (commit enc f self))"
      using False
      by (simp add: addChunks_Cons Cons.IH seenDocument_commit seenHeader_commit
          del: addChunks.simps(2))
    also have "\<dots> = tokenCount self +
        ingestCost enc (\<lambda>d. \<not> isNewDocument self d) (\<lambda>k. \<not> isNewHeader self (fst k) (snd k))
          (f # accepted enc fs (commit enc f self))"
      by (simp add: tokenCount_commit incrementalCost_def ingestCost_def headerKey_def fun_upd_seen)
    finally show ?thesis
      using False by (simp add: accepted_Cons del: addChunks.simps(2) accepted.simps(2))
  qed
qed

text \<open>
  C8: when every call of a sequence on a fresh builder is accepted, \<open>tokenCount\<close> at the
  end is the sum of the token counts of every content, of the title once for each distinct
  \<open>documentId\<close> (at its first fragment) and of the normalized header once for each distinct
  pair of \<open>documentId\<close> and normalized header.
\<close>

theorem tokenCount_is_totalCost:
  assumes "accepted enc fs (init m) = fs"
  shows "tokenCount (addChunks enc fs (init m)) = totalCost enc fs"
proof -
  have "isNewDocument (init m) d" and "isNewHeader (init m) d h" for d h
    by (simp_all add: isNewDocument_def isNewHeader_def init_def)
  then show ?thesis
    using tokenCount_addChunks [of enc fs "init m"] assms
    by (simp add: totalCost_def init_def)
qed

theorem tokenCount_is_totalCost_witness:
  "accepted charTokens example_fragments (init 20) = example_fragments \<and>
   tokenCount (addChunks charTokens example_fragments (init 20)) = 16 \<and>
   totalCost charTokens example_fragments = 16"
proof -
  have h: "accepted charTokens example_fragments (init 20) = example_fragments"
    by (simp add: example_fragments_def addChunk_defs)
  have t: "totalCost charTokens example_fragments = 16"
    by (simp add: example_fragments_def totalCost_def ingestCost_def headerKey_def
        normalizeHeader_def countTokens_def charTokens_def)
  from tokenCount_is_totalCost [OF h] h t show ?thesis by simp
qed

subsection \<open>Rendering a builder without empty groups\<close>

lemma sortedHeaders_ok:
  "\<forall>h \<in> set hs. chunks (snd h) \<noteq> [] \<Longrightarrow>
   sortedHeaders hs = Inr (sort_key (\<lambda>h. firstChunkNumber (snd h)) hs)"
  by (simp add: sortedHeaders_def list_ex_iff)

lemma documentLines_ok:
  "\<forall>h \<in> set (headers doc). chunks (snd h) \<noteq> [] \<Longrightarrow> documentLines d doc = Inr (docBlock d doc)"
  by (simp add: documentLines_def sortedHeaders_ok docBlock_def)

lemma renderDocuments_ok:
  "\<forall>d \<in> set ds. \<forall>h \<in> set (headers (snd d)). chunks (snd h) \<noteq> [] \<Longrightarrow>
   renderDocuments ds = Inr (concat (map (\<lambda>d. docBlock (fst d) (snd d)) ds))"
  by (induction ds) (simp_all add: documentLines_ok)

lemma lines_ok:
  "noEmptyGroup self \<Longrightarrow>
   lines self = Inr (concat (map (\<lambda>d. docBlock (fst d) (snd d)) (sortedDocuments self)))"
  unfolding lines_def
  by (rule renderDocuments_ok) (simp add: noEmptyGroup_def sortedDocuments_def)

lemma sorted_map_int_upt: "sorted (map int [0..<n])"
  by (induction n) (auto simp: sorted_append)

lemma sortedDocuments_insertOrdered: "insertOrdered self \<Longrightarrow> sortedDocuments self = documents self"
  unfolding sortedDocuments_def
  by (rule sort_key_id_if_sorted) (simp add: insertOrdered_def sorted_map_int_upt)

subsection \<open>Counting lines\<close>

lemma count_chunkLines: "count_list (map content cs) x \<le> count_list (chunkLines p cs) x"
  by (induction cs arbitrary: p) (auto simp: le_SucI)

lemma count_concat_member:
  "y \<in> set ys \<Longrightarrow> count_list (f y) x \<le> count_list (concat (map f ys)) x"
  by (induction ys) auto

lemma count_sorted_chunks:
  "count_list (map content (sort_key chunkNumber cs)) x = count_list (map content cs) x"
proof -
  have "mset (map content (sort_key chunkNumber cs)) = mset (map content cs)"
    by simp
  then show ?thesis by (metis count_mset)
qed

lemma count_headerLines: "count_list (map content (chunks g)) x \<le> count_list (headerLines g) x"
proof -
  have "count_list (map content (chunks g)) x
      \<le> count_list (chunkLines 0 (sort_key chunkNumber (chunks g))) x"
    using count_chunkLines [of "sort_key chunkNumber (chunks g)" x 0]
    by (simp add: count_sorted_chunks)
  then show ?thesis by (simp add: headerLines_def)
qed

lemma count_docBlock:
  assumes "h \<in> set (headers doc)"
  shows "count_list (map content (chunks (snd h))) x \<le> count_list (docBlock d doc) x"
proof -
  have "h \<in> set (sort_key (\<lambda>h. firstChunkNumber (snd h)) (headers doc))"
    using assms by simp
  from count_concat_member [OF this, of "\<lambda>h. headerLines (snd h)" x]
  have "count_list (headerLines (snd h)) x \<le> count_list (docBlock d doc) x"
    by (simp add: docBlock_def)
  with count_headerLines [of "snd h" x] show ?thesis by simp
qed

lemma count_lines:
  assumes "noEmptyGroup self" "map_of (documents self) d = Some doc" "map_of (headers doc) h = Some g"
  shows "\<exists>ls. lines self = Inr ls \<and> count_list (map content (chunks g)) x \<le> count_list ls x"
proof -
  from assms(2) have "(d, doc) \<in> set (sortedDocuments self)"
    by (auto simp: sortedDocuments_def dest: map_of_SomeD)
  from count_concat_member [OF this, of "\<lambda>d. docBlock (fst d) (snd d)" x]
  have "count_list (docBlock d doc) x
      \<le> count_list (concat (map (\<lambda>d. docBlock (fst d) (snd d)) (sortedDocuments self))) x"
    by simp
  moreover from assms(3) have "(h, g) \<in> set (headers doc)"
    by (rule map_of_SomeD)
  from count_docBlock [OF this, of x d]
  have "count_list (map content (chunks g)) x \<le> count_list (docBlock d doc) x"
    by simp
  ultimately show ?thesis
    using lines_ok [OF assms(1)] by simp
qed

lemma groupChunks_nonempty:
  assumes "groupChunks self d h \<noteq> []"
  shows "\<exists>doc g. map_of (documents self) d = Some doc \<and> map_of (headers doc) h = Some g \<and>
           chunks g = groupChunks self d h"
  using assms by (auto simp: groupChunks_def split: option.splits)

subsection \<open>The driver never fails\<close>

lemma addChunksUntilOverflow_Cons:
  "addChunksUntilOverflow enc (f # fs) self =
     (if overflows enc f self then (None, self)
      else addChunksUntilOverflow enc fs (commit enc f self))"
  by (simp add: addChunk_eq)

lemma addChunksUntilOverflow_returns:
  "noEmptyGroup self \<Longrightarrow>
   fst (addChunksUntilOverflow enc fs self) = None \<and>
   noEmptyGroup (snd (addChunksUntilOverflow enc fs self))"
  by (induction fs arbitrary: self)
    (simp_all add: addChunksUntilOverflow_Cons noEmptyGroup_commit
      del: addChunksUntilOverflow.simps(2))

lemma chunksToText_returns: "\<exists>s. chunksToText enc cs m = Inr s"
proof -
  obtain e self where r: "addChunksUntilOverflow enc cs (init m) = (e, self)"
    by (cases "addChunksUntilOverflow enc cs (init m)")
  with addChunksUntilOverflow_returns [OF init_invariants(1), of enc cs m]
  have "e = None" and "noEmptyGroup self" by simp_all
  then show ?thesis
    using lines_ok [of self] by (simp add: chunksToText_def r str_def)
qed

subsection \<open>No deduplication\<close>

text \<open>
  C10: when the same fragment is ingested twice in a row and both calls are accepted, its
  chunk is appended twice to the chunk list of its header group, and the token count of
  the content is added by both calls (the first call adds the full incremental cost, the
  second the content alone). When the builder before the two calls has no empty header
  group, as every builder made by \<open>addChunk\<close> calls from a fresh one, the rendering does
  not fail and has the content on at least two lines.
\<close>

theorem addChunk_twice:
  assumes "addChunk enc f self = (None, self1)"
    and "addChunk enc f self1 = (None, self2)"
  shows "groupChunks self2 (documentId_of f) (normalizeHeader (header_of f)) =
           groupChunks self (documentId_of f) (normalizeHeader (header_of f))
           @ [chunk_of f, chunk_of f] \<and>
         tokenCount self1 = tokenCount self + incrementalCost enc self f \<and>
         tokenCount self2 = tokenCount self1 + countTokens enc (content_of f) \<and>
         (noEmptyGroup self \<longrightarrow>
            (\<exists>ls. lines self2 = Inr ls \<and> str self2 = Inr (join [CHR 0x0A] ls) \<and>
               2 \<le> count_list ls (content_of f)))"
proof -
  let ?d = "documentId_of f" and ?h = "normalizeHeader (header_of f)"
  from assms(1) have s1: "self1 = commit enc f self"
    by (auto simp: addChunk_eq split: if_splits)
  from assms(2) have s2: "self2 = commit enc f self1"
    by (auto simp: addChunk_eq split: if_splits)
  have g: "groupChunks self2 ?d ?h = groupChunks self ?d ?h @ [chunk_of f, chunk_of f]"
    by (simp add: s1 s2 groupChunks_commit)
  have t1: "tokenCount self1 = tokenCount self + incrementalCost enc self f"
    by (simp add: s1 tokenCount_commit)
  have "\<not> isNewDocument self1 ?d" and "\<not> isNewHeader self1 ?d ?h"
    by (simp_all add: s1 isNewDocument_commit isNewHeader_commit)
  then have t2: "tokenCount self2 = tokenCount self1 + countTokens enc (content_of f)"
    by (simp add: s2 tokenCount_commit incrementalCost_def)
  have r: "\<exists>ls. lines self2 = Inr ls \<and> str self2 = Inr (join [CHR 0x0A] ls) \<and>
           2 \<le> count_list ls (content_of f)" if "noEmptyGroup self"
  proof -
    have ne: "noEmptyGroup self2"
      using that by (simp add: s1 s2 noEmptyGroup_commit)
    from g have "groupChunks self2 ?d ?h \<noteq> []" by simp
    from groupChunks_nonempty [OF this] obtain doc g' where
      doc: "map_of (documents self2) ?d = Some doc" and
      grp: "map_of (headers doc) ?h = Some g'" and
      cs: "chunks g' = groupChunks self2 ?d ?h" by blast
    from count_lines [OF ne doc grp, of "content_of f"] obtain ls where
      ls: "lines self2 = Inr ls"
        "count_list (map content (chunks g')) (content_of f) \<le> count_list ls (content_of f)"
      by blast
    have "2 \<le> count_list (map content (chunks g')) (content_of f)"
      by (simp add: cs g chunk_of_def)
    with ls show ?thesis by (simp add: str_def)
  qed
  from g t1 t2 r show ?thesis by blast
qed

lemmas lines_defs = lines_def sortedDocuments_def documentLines_def sortedHeaders_def
  firstChunkNumber_def headerLines_def titleLine_def dict_ne_str_def

theorem addChunk_twice_witness:
  \<open>noEmptyGroup (init 9) \<and>
   addChunk charTokens (Fragment ''4'' ''t'' (Some ''Z'') ''zz'' 5) (init 9)
     = (None, twice_once) \<and>
   addChunk charTokens (Fragment ''4'' ''t'' (Some ''Z'') ''zz'' 5) twice_once
     = (None, twice_twice) \<and>
   groupChunks twice_twice ''4'' ''Z'' =
     [\<lparr>content = ''zz'', chunkNumber = 5\<rparr>, \<lparr>content = ''zz'', chunkNumber = 5\<rparr>] \<and>
   tokenCount twice_once = 0 + 4 \<and> tokenCount twice_twice = 4 + 2 \<and>
   lines twice_twice = Inr [''From document "T":'', ''Z:'', ''zz'', ''...'', ''zz'', ''''] \<and>
   (\<exists>ls. lines twice_twice = Inr ls \<and> 2 \<le> count_list ls ''zz'')\<close>
proof -
  let ?f = "Fragment ''4'' ''t'' (Some ''Z'') ''zz'' 5"
  have h0: "noEmptyGroup (init 9)"
    by (simp add: noEmptyGroup_def init_def)
  have h1: "addChunk charTokens ?f (init 9) = (None, twice_once)"
    by (simp add: addChunk_defs twice_once_def)
  have h2: "addChunk charTokens ?f twice_once = (None, twice_twice)"
    by (simp add: addChunk_defs twice_once_def twice_twice_def)
  have l: \<open>lines twice_twice = Inr [''From document "T":'', ''Z:'', ''zz'', ''...'', ''zz'', '''']\<close>
  proof -
    have "upper ''t'' = ''T''" by code_simp
    then show ?thesis by (simp add: lines_defs twice_twice_def)
  qed
  have g: "groupChunks twice_twice ''4'' ''Z'' =
     [\<lparr>content = ''zz'', chunkNumber = 5\<rparr>, \<lparr>content = ''zz'', chunkNumber = 5\<rparr>]"
    by (simp add: groupChunks_def twice_twice_def)
  have t: "tokenCount twice_once = 0 + 4" "tokenCount twice_twice = 4 + 2"
    by (simp_all add: twice_once_def twice_twice_def)
  from addChunk_twice [OF h1 h2] h0 have
    "\<exists>ls. lines twice_twice = Inr ls \<and> 2 \<le> count_list ls ''zz''" by auto
  with h0 h1 h2 l g t show ?thesis by blast
qed

subsection \<open>The order of first occurrences\<close>

lemma firstSeen_extends: "\<exists>ext. firstSeen seen xs = seen @ ext"
proof (induction xs arbitrary: seen)
  case Nil
  show ?case by simp
next
  case (Cons x xs)
  from Cons.IH [of "if x \<in> set seen then seen else seen @ [x]"]
  show ?case by (auto split: if_splits)
qed

lemma set_firstSeen: "set (firstSeen seen xs) = set seen \<union> set xs"
  by (induction xs arbitrary: seen) auto

lemma firstSeen_append: "firstSeen seen (xs @ ys) = firstSeen (firstSeen seen xs) ys"
  by (induction xs arbitrary: seen) auto

lemma firstSeen_before:
  assumes "b \<notin> set (pre @ [a])" and "b \<in> set rest"
  shows "\<exists>k1 k2 k3. firstSeen [] (pre @ a # rest) = k1 @ a # k2 @ b # k3"
proof -
  let ?s = "firstSeen [] (pre @ [a])"
  have s: "set ?s = set (pre @ [a])"
    by (simp only: set_firstSeen) simp
  then have "a \<in> set ?s" by simp
  then obtain u v where u: "?s = u @ a # v"
    by (auto dest: split_list)
  obtain ext where ext: "firstSeen ?s rest = ?s @ ext"
    using firstSeen_extends by blast
  have "b \<in> set (firstSeen ?s rest)"
    using assms(2) by (simp only: set_firstSeen) simp
  with ext s assms(1) have "b \<in> set ext" by auto
  then obtain w z where w: "ext = w @ b # z"
    by (auto dest: split_list)
  have "firstSeen [] (pre @ a # rest) = firstSeen ?s rest"
    using firstSeen_append [of "[]" "pre @ [a]" rest] by simp
  also have "\<dots> = u @ a # (v @ w) @ b # z"
    by (simp add: ext w) (simp add: u)
  finally show ?thesis by blast
qed

lemma keys_decompose:
  assumes "map fst ds = k1 @ a # k2 @ b # k3"
  shows "\<exists>d1 da d2 db d3. ds = d1 @ (a, da) # d2 @ (b, db) # d3"
proof -
  from assms obtain d1 r1 where 1: "ds = d1 @ r1" "map fst r1 = a # k2 @ b # k3"
    by (auto simp: map_eq_append_conv)
  then obtain x r2 where 2: "r1 = x # r2" "fst x = a" "map fst r2 = k2 @ b # k3"
    by (auto simp: map_eq_Cons_conv)
  then obtain d2 r3 where 3: "r2 = d2 @ r3" "map fst r3 = b # k3"
    by (auto simp: map_eq_append_conv)
  then obtain y d3 where 4: "r3 = y # d3" "fst y = b"
    by (auto simp: map_eq_Cons_conv)
  have "ds = d1 @ (a, snd x) # d2 @ (b, snd y) # d3"
    using 1 2 3 4 by (cases x; cases y) simp
  then show ?thesis by blast
qed

subsection \<open>The order of the documents\<close>

text \<open>
  C6: take a sequence of calls on a fresh builder, and among its accepted fragments one of
  document \<open>A\<close> that comes when no fragment of document \<open>B\<close> has been accepted yet, with a
  fragment of \<open>B\<close> accepted later (so the first fragment of \<open>A\<close> was ingested before the
  first fragment of \<open>B\<close>). Then the rendering does not fail, and the whole block of \<open>A\<close>
  (its title line, its header groups, its closing empty line) comes before the whole
  block of \<open>B\<close>, whatever the ids, the titles and the later fragments are.
\<close>

theorem first_seen_document_first:
  assumes "accepted enc fs (init m) = pre @ fa # rest"
    and "B \<notin> documentId_of ` set (pre @ [fa])"
    and "B \<in> documentId_of ` set rest"
  shows "\<exists>docA docB blockA blockB before between after.
           map_of (documents (addChunks enc fs (init m))) (documentId_of fa) = Some docA \<and>
           map_of (documents (addChunks enc fs (init m))) B = Some docB \<and>
           documentLines (documentId_of fa) docA = Inr blockA \<and>
           documentLines B docB = Inr blockB \<and>
           lines (addChunks enc fs (init m)) =
             Inr (before @ blockA @ between @ blockB @ after)"
proof -
  let ?b = "addChunks enc fs (init m)" and ?A = "documentId_of fa"
  have ne: "noEmptyGroup ?b" and dk: "distinctKeys ?b" and io: "insertOrdered ?b"
    by (simp_all add: noEmptyGroup_addChunks distinctKeys_addChunks insertOrdered_addChunks
        init_invariants)
  have "map fst (documents ?b) =
      firstSeen [] (map documentId_of pre @ ?A # map documentId_of rest)"
    using keys_addChunks [of enc fs "init m"] assms(1) by (simp add: init_def)
  moreover have "\<exists>k1 k2 k3.
      firstSeen [] (map documentId_of pre @ ?A # map documentId_of rest) = k1 @ ?A # k2 @ B # k3"
    using assms(2,3) by (intro firstSeen_before) auto
  ultimately obtain k1 k2 k3 where "map fst (documents ?b) = k1 @ ?A # k2 @ B # k3"
    by auto
  from keys_decompose [OF this] obtain d1 da d2 db d3 where
    ds: "documents ?b = d1 @ (?A, da) # d2 @ (B, db) # d3" by blast
  have dist: "distinct (map fst (documents ?b))"
    using dk by (simp add: distinctKeys_def)
  have ma: "map_of (documents ?b) ?A = Some da"
    using dist by (simp only: map_of_eq_Some_iff) (simp add: ds)
  have mb: "map_of (documents ?b) B = Some db"
    using dist by (simp only: map_of_eq_Some_iff) (simp add: ds)
  have la: "documentLines ?A da = Inr (docBlock ?A da)"
    using ne by (intro documentLines_ok) (auto simp: noEmptyGroup_def ds)
  have lb: "documentLines B db = Inr (docBlock B db)"
    using ne by (intro documentLines_ok) (auto simp: noEmptyGroup_def ds)
  have "lines ?b = Inr (concat (map (\<lambda>d. docBlock (fst d) (snd d)) (documents ?b)))"
    using lines_ok [OF ne] by (simp add: sortedDocuments_insertOrdered [OF io])
  then have "lines ?b =
      Inr (concat (map (\<lambda>d. docBlock (fst d) (snd d)) d1) @ docBlock ?A da
        @ concat (map (\<lambda>d. docBlock (fst d) (snd d)) d2) @ docBlock B db
        @ concat (map (\<lambda>d. docBlock (fst d) (snd d)) d3))"
    by (simp add: ds)
  with ma mb la lb show ?thesis by blast
qed

subsection \<open>The order of the header groups\<close>

text \<open>
  C7: for every document of a builder made by a sequence of calls on a fresh one, the
  rendering of the document does not fail; it is the title line, the lines of the header
  groups in the order \<open>hs\<close>, and an empty line, where \<open>hs\<close> is a rearrangement of the
  header groups of the document in ascending order of \<open>firstChunkNumber\<close>, and
  \<open>firstChunkNumber\<close> of a group is the sequence number of the first accepted fragment of
  that document and normalized header (the fragment that arrived first in the group).
\<close>

theorem header_groups_by_first_arrival:
  assumes "(d, doc) \<in> set (documents (addChunks enc fs (init m)))"
  shows "\<exists>hs. sortedHeaders (headers doc) = Inr hs \<and>
           documentLines d doc =
             Inr ([titleLine d doc] @ concat (map (\<lambda>h. headerLines (snd h)) hs) @ [[]]) \<and>
           mset hs = mset (headers doc) \<and>
           sorted (map (\<lambda>h. firstChunkNumber (snd h)) hs) \<and>
           (\<forall>h \<in> set hs.
              firstArrival (accepted enc fs (init m)) d (fst h) = Some (firstChunkNumber (snd h)))"
proof -
  let ?b = "addChunks enc fs (init m)"
  let ?hs = "sort_key (\<lambda>h. firstChunkNumber (snd h)) (headers doc)"
  have ne: "noEmptyGroup ?b" and dk: "distinctKeys ?b"
    by (simp_all add: noEmptyGroup_addChunks distinctKeys_addChunks init_invariants)
  from ne assms have ne_doc: "\<forall>h \<in> set (headers doc). chunks (snd h) \<noteq> []"
    by (auto simp: noEmptyGroup_def)
  then have 1: "sortedHeaders (headers doc) = Inr ?hs"
    by (rule sortedHeaders_ok)
  have 2: "documentLines d doc =
      Inr ([titleLine d doc] @ concat (map (\<lambda>h. headerLines (snd h)) ?hs) @ [[]])"
    using documentLines_ok [OF ne_doc] by (simp add: docBlock_def)
  have 3: "mset ?hs = mset (headers doc)" by simp
  have 4: "sorted (map (\<lambda>h. firstChunkNumber (snd h)) ?hs)"
    by (rule sorted_sort_key)
  have md: "map_of (documents ?b) d = Some doc"
    using dk assms by (simp add: distinctKeys_def)
  have dh: "distinct (map fst (headers doc))"
    using dk assms by (auto simp: distinctKeys_def)
  have 5: "firstArrival (accepted enc fs (init m)) d (fst h) = Some (firstChunkNumber (snd h))"
    if "h \<in> set ?hs" for h
  proof -
    from that have mem: "(fst h, snd h) \<in> set (headers doc)" by simp
    with dh have "map_of (headers doc) (fst h) = Some (snd h)" by simp
    with md have "groupChunks ?b d (fst h) = chunks (snd h)"
      by (simp add: groupChunks_def)
    moreover have "groupChunks (init m) d (fst h) = []"
      by (simp add: groupChunks_def init_def)
    ultimately have cs: "chunks (snd h) =
        map chunk_of (filter (\<lambda>f. documentId_of f = d \<and> normalizeHeader (header_of f) = fst h)
          (accepted enc fs (init m)))"
      using groupChunks_addChunks [of enc fs "init m" d "fst h"] by simp
    from ne_doc mem have "chunks (snd h) \<noteq> []" by auto
    with cs show ?thesis
      by (auto simp: firstArrival_def firstChunkNumber_def chunk_of_def split: list.splits)
  qed
  from 1 2 3 4 5 show ?thesis by blast
qed

text \<open>The example, run and rendered.\<close>

lemma addChunks_example:
  "addChunks charTokens example_fragments (init 20) =
     \<lparr>maxTokens = 20, tokenCount = 16,
      documents =
        [(''2'', \<lparr>documentTitle = ''Zb'', insertOrder = 0,
            headers =
              [(''Z'', \<lparr>header = ''Z'',
                  chunks = [\<lparr>content = ''z5'', chunkNumber = 5\<rparr>,
                            \<lparr>content = ''z1'', chunkNumber = 1\<rparr>]\<rparr>),
               (''A'', \<lparr>header = ''A'', chunks = [\<lparr>content = ''a7'', chunkNumber = 7\<rparr>]\<rparr>),
               (''M'', \<lparr>header = ''M'', chunks = [\<lparr>content = ''m3'', chunkNumber = 3\<rparr>]\<rparr>)]\<rparr>),
         (''1'', \<lparr>documentTitle = ''C'', insertOrder = 1,
            headers =
              [([], \<lparr>header = [],
                  chunks = [\<lparr>content = ''p'', chunkNumber = 0\<rparr>,
                            \<lparr>content = ''q'', chunkNumber = 2\<rparr>]\<rparr>)]\<rparr>)]\<rparr>"
  by (simp add: example_fragments_def addChunk_defs)

lemma accepted_example: "accepted charTokens example_fragments (init 20) = example_fragments"
  by (simp add: example_fragments_def addChunk_defs)

lemma lines_example:
  \<open>lines (addChunks charTokens example_fragments (init 20)) =
     Inr [''From document "ZB":'', ''M:'', ''m3'', ''Z:'', ''z1'', ''...'', ''z5'',
          ''A:'', ''a7'', '''',
          ''From document "C":'', '':'', ''p'', ''q'', '''']\<close>
proof -
  have "upper ''Zb'' = ''ZB''" "upper ''C'' = ''C''" by code_simp+
  then show ?thesis by (simp add: addChunks_example lines_defs)
qed

theorem first_seen_document_first_witness:
  \<open>accepted charTokens example_fragments (init 20) =
     [] @ Fragment ''2'' ''Zb'' (Some ''Z'') ''z5'' 5 # tl example_fragments \<and>
   ''1'' \<notin> documentId_of ` set ([] @ [Fragment ''2'' ''Zb'' (Some ''Z'') ''z5'' 5]) \<and>
   ''1'' \<in> documentId_of ` set (tl example_fragments) \<and>
   (\<exists>docA docB blockA blockB before between after.
      map_of (documents (addChunks charTokens example_fragments (init 20))) ''2'' = Some docA \<and>
      map_of (documents (addChunks charTokens example_fragments (init 20))) ''1'' = Some docB \<and>
      documentLines ''2'' docA = Inr blockA \<and>
      documentLines ''1'' docB = Inr blockB \<and>
      lines (addChunks charTokens example_fragments (init 20)) =
        Inr (before @ blockA @ between @ blockB @ after)) \<and>
   lines (addChunks charTokens example_fragments (init 20)) =
     Inr [''From document "ZB":'', ''M:'', ''m3'', ''Z:'', ''z1'', ''...'', ''z5'',
          ''A:'', ''a7'', '''',
          ''From document "C":'', '':'', ''p'', ''q'', '''']\<close>
proof -
  let ?fa = "Fragment ''2'' ''Zb'' (Some ''Z'') ''z5'' 5"
  have h1: "accepted charTokens example_fragments (init 20) = [] @ ?fa # tl example_fragments"
    by (simp add: accepted_example) (simp add: example_fragments_def)
  have h2: "''1'' \<notin> documentId_of ` set ([] @ [?fa])"
    by simp
  have h3: "''1'' \<in> documentId_of ` set (tl example_fragments)"
    by (simp add: example_fragments_def)
  from first_seen_document_first [OF h1 h2 h3] h1 h2 h3 lines_example
  show ?thesis by simp
qed

theorem header_groups_by_first_arrival_witness:
  "(''2'', \<lparr>documentTitle = ''Zb'', insertOrder = 0,
            headers =
              [(''Z'', \<lparr>header = ''Z'',
                  chunks = [\<lparr>content = ''z5'', chunkNumber = 5\<rparr>,
                            \<lparr>content = ''z1'', chunkNumber = 1\<rparr>]\<rparr>),
               (''A'', \<lparr>header = ''A'', chunks = [\<lparr>content = ''a7'', chunkNumber = 7\<rparr>]\<rparr>),
               (''M'', \<lparr>header = ''M'', chunks = [\<lparr>content = ''m3'', chunkNumber = 3\<rparr>]\<rparr>)]\<rparr>)
     \<in> set (documents (addChunks charTokens example_fragments (init 20))) \<and>
   (\<exists>hs. sortedHeaders
            [(''Z'', \<lparr>header = ''Z'',
                  chunks = [\<lparr>content = ''z5'', chunkNumber = 5\<rparr>,
                            \<lparr>content = ''z1'', chunkNumber = 1\<rparr>]\<rparr>),
               (''A'', \<lparr>header = ''A'', chunks = [\<lparr>content = ''a7'', chunkNumber = 7\<rparr>]\<rparr>),
               (''M'', \<lparr>header = ''M'', chunks = [\<lparr>content = ''m3'', chunkNumber = 3\<rparr>]\<rparr>)]
            = Inr hs \<and>
          map fst hs = [''M'', ''Z'', ''A''] \<and>
          sorted (map (\<lambda>h. firstChunkNumber (snd h)) hs) \<and>
          (\<forall>h \<in> set hs.
             firstArrival (accepted charTokens example_fragments (init 20)) ''2'' (fst h)
               = Some (firstChunkNumber (snd h))))"
proof -
  let ?hd = "[(''Z'', \<lparr>header = ''Z'',
                  chunks = [\<lparr>content = ''z5'', chunkNumber = 5\<rparr>,
                            \<lparr>content = ''z1'', chunkNumber = 1\<rparr>]\<rparr>),
               (''A'', \<lparr>header = ''A'', chunks = [\<lparr>content = ''a7'', chunkNumber = 7\<rparr>]\<rparr>),
               (''M'', \<lparr>header = ''M'', chunks = [\<lparr>content = ''m3'', chunkNumber = 3\<rparr>]\<rparr>)]"
  let ?doc = "\<lparr>documentTitle = ''Zb'', insertOrder = 0, headers = ?hd\<rparr>"
  have h: "(''2'', ?doc) \<in> set (documents (addChunks charTokens example_fragments (init 20)))"
    by (simp add: addChunks_example)
  from header_groups_by_first_arrival [OF h] obtain hs where
    hs: "sortedHeaders ?hd = Inr hs"
      "sorted (map (\<lambda>h. firstChunkNumber (snd h)) hs)"
      "\<forall>h \<in> set hs.
         firstArrival (accepted charTokens example_fragments (init 20)) ''2'' (fst h)
           = Some (firstChunkNumber (snd h))"
    by auto
  have "sortedHeaders ?hd = Inr [?hd ! 2, ?hd ! 0, ?hd ! 1]"
    by (simp add: sortedHeaders_def firstChunkNumber_def)
  with hs(1) have mf: "map fst hs = [''M'', ''Z'', ''A'']" by auto
  show ?thesis
  proof (intro conjI exI)
    show "(''2'', ?doc) \<in> set (documents (addChunks charTokens example_fragments (init 20)))"
      by (fact h)
    show "sortedHeaders ?hd = Inr hs" by (fact hs(1))
    show "map fst hs = [''M'', ''Z'', ''A'']" by (fact mf)
    show "sorted (map (\<lambda>h. firstChunkNumber (snd h)) hs)" by (fact hs(2))
    show "\<forall>h \<in> set hs.
         firstArrival (accepted charTokens example_fragments (init 20)) ''2'' (fst h)
           = Some (firstChunkNumber (snd h))" by (fact hs(3))
  qed
qed

subsection \<open>The header line of the group without header\<close>

text \<open>
  C4 fails on the code. A builder that received one fragment whose header is \<open>None\<close>
  renders the group of the empty header with a header line of its own, the line \<open>:\<close>,
  between the title line and the content: the test of line 270 compares the group
  dictionary, not its header string, with the empty string, and so always holds.
\<close>

theorem no_header_group_has_header_line:
  \<open>lines (addChunks charTokens [Fragment ''3'' ''T'' None ''body'' 1] (init 10)) =
     Inr [''From document "T":'', '':'', ''body'', '''']\<close>
proof -
  have "upper ''T'' = ''T''" by code_simp
  then show ?thesis by (simp add: addChunk_defs lines_defs)
qed

subsection \<open>The ellipsis line\<close>

text \<open>The loop of lines 273-278 on two chunks and more, and on the numbers 3, 4, 7.\<close>

lemma chunkLines_two:
  "chunkLines p (c # c' # cs) =
     (if p \<noteq> 0 \<and> chunkNumber c \<noteq> p + 1 then [''...''] else [])
     @ content c
     # (if chunkNumber c \<noteq> 0 \<and> chunkNumber c' \<noteq> chunkNumber c + 1 then [''...''] else [])
     @ content c' # chunkLines (chunkNumber c') cs"
  by simp

lemma chunkLines_3_4_7:
  "chunkLines 0 (sort_key chunkNumber
     [\<lparr>content = ''g'', chunkNumber = 7\<rparr>, \<lparr>content = ''c'', chunkNumber = 3\<rparr>,
      \<lparr>content = ''d'', chunkNumber = 4\<rparr>]) = [''c'', ''d'', ''...'', ''g'']"
  by simp

text \<open>
  C5 fails on the code. The chunk numbers of a document start at 0 (\<open>counter = 0\<close> in
  \<open>indexChunks\<close>), and 0 is also the value of \<open>previousChunkNumber\<close> that stands for
  "no chunk yet". A group with the chunks 0 and 2 is rendered without an ellipsis line
  between them, although the numbers differ by 2.
\<close>

theorem no_ellipsis_after_chunk_zero:
  \<open>lines (addChunks charTokens
      [Fragment ''3'' ''T'' (Some ''H'') ''a'' 0, Fragment ''3'' ''T'' (Some ''H'') ''b'' 2]
      (init 10)) =
     Inr [''From document "T":'', ''H:'', ''a'', ''b'', '''']\<close>
proof -
  have "upper ''T'' = ''T''" by code_simp
  then show ?thesis by (simp add: addChunk_defs lines_defs)
qed

end
